theory Spec2Isabelle
  imports Complex_Main
begin

section \<open>Numbers and errors\<close>

text \<open>
  The notebooks compute with Python's floating-point numbers. Unless said otherwise they
  are modelled as mathematical reals: a statement below is then about exact arithmetic,
  and the rounding of the machine is outside it. Where a claim is about the exact value
  of a computed number, the computation is modelled a second time with the rounding of
  every operation written out (section "Floating-point numbers"). Exceptions are values
  of the type \<open>error\<close>; a function that can raise returns \<open>error + 'a\<close>, the error
  on the left.
\<close>


datatype error =
    ZeroDivisionError
  | DivideByZero
  | OutOfDomain
  | ConfigurationError

section \<open>Floating-point numbers\<close>

text \<open>
  A Python \<open>float\<close> is a number of the IEEE 754 binary64 format: a significand of 53
  bits and a power of two. It is modelled by the real number it denotes. Every arithmetic
  operation returns the exact result rounded to the nearest such number, a tie going to
  the even significand. The bounded exponent range (overflow, subnormal numbers) is not
  modelled; the numbers computed below are far inside it.

  \<open>round_half_even\<close> rounds a real to the nearest integer, \<open>exponent a\<close> is the power
  of two at or below \<open>a > 0\<close>, found by doubling or halving \<open>a\<close> (at most
  \<open>max a (1 / a)\<close> times) until it lies between 1 and 2, and \<open>round_double\<close> rounds to
  53 significant bits.
\<close>

definition round_half_even :: "real \<Rightarrow> int" where
  "round_half_even y =
     (let f = \<lfloor>y\<rfloor>; d = y - of_int f
      in if d < 1 / 2 then f
         else if 1 / 2 < d then f + 1
         else if even f then f else f + 1)"

fun binade :: "nat \<Rightarrow> real \<Rightarrow> int" where
  "binade 0 a = 0"
| "binade (Suc n) a =
     (if a < 1 then binade n (2 * a) - 1
      else if 2 \<le> a then binade n (a / 2) + 1
      else 0)"

definition exponent :: "real \<Rightarrow> int" where
  "exponent a = binade (nat \<lceil>max a (1 / a)\<rceil>) a"

definition round_double :: "real \<Rightarrow> real" where
  "round_double x =
     (if x = 0 then 0
      else let e = exponent \<bar>x\<bar>
           in if e \<le> 52
              then of_int (round_half_even (x * 2 ^ nat (52 - e))) / 2 ^ nat (52 - e)
              else of_int (round_half_even (x / 2 ^ nat (e - 52))) * 2 ^ nat (e - 52))"

text \<open>
  The operations of Python on floats that the functions below use: \<open>+\<close>, \<open>*\<close>,
  \<open>/\<close> (which raises on a zero divisor) and \<open>x**2\<close>.
\<close>

definition float_add :: "real \<Rightarrow> real \<Rightarrow> real" where
  "float_add a b = round_double (a + b)"

definition float_mul :: "real \<Rightarrow> real \<Rightarrow> real" where
  "float_mul a b = round_double (a * b)"

definition float_truediv :: "real \<Rightarrow> real \<Rightarrow> error + real" where
  "float_truediv a b = (if b = 0 then Inl ZeroDivisionError else Inr (round_double (a / b)))"

definition float_square :: "real \<Rightarrow> real" where
  "float_square a = round_double (a * a)"

section \<open>Chapter 7: quadratic growth\<close>

text \<open>
  A \<open>System\<close> object is a bag of named parameters. The two functions of the quadratic
  model read \<open>alpha\<close> and \<open>beta\<close> only, and \<open>sys1 = System(alpha=0.025, beta=-0.0018)\<close>
  holds nothing else.
\<close>

record pop_system =
  alpha :: real
  beta :: real

text \<open>
  \<^verbatim>\<open>
  def growth_func_quad(t, pop, system):
      return system.alpha * pop + system.beta * pop**2
  \<close>
\<close>

definition growth_func_quad :: "real \<Rightarrow> real \<Rightarrow> pop_system \<Rightarrow> real" where
  "growth_func_quad t pop system = alpha system * pop + beta system * pop ^ 2"

text \<open>
  \<^verbatim>\<open>
  def carrying_capacity(system):
      K = -system.alpha / system.beta
      return K
  \<close>
  Python's division raises \<open>ZeroDivisionError\<close> when \<open>system.beta\<close> is zero.
\<close>

definition carrying_capacity :: "pop_system \<Rightarrow> error + real" where
  "carrying_capacity system =
     (if beta system = 0 then Inl ZeroDivisionError
      else Inr (- alpha system / beta system))"

text \<open>The system \<open>sys1 = System(alpha=0.025, beta=-0.0018)\<close> of the chapter.\<close>

definition sys1 :: pop_system where
  "sys1 = \<lparr>alpha = 25 / 1000, beta = - 18 / 10000\<rparr>"

text \<open>
  The same two functions and the same system on floats: each operation of the source, in
  the order Python evaluates it, with its rounding; the literals \<open>0.025\<close> and
  \<open>0.0018\<close> denote the floats nearest to them.
\<close>

definition growth_func_quad_float :: "real \<Rightarrow> real \<Rightarrow> pop_system \<Rightarrow> real" where
  "growth_func_quad_float t pop system =
     float_add (float_mul (alpha system) pop) (float_mul (beta system) (float_square pop))"

definition carrying_capacity_float :: "pop_system \<Rightarrow> error + real" where
  "carrying_capacity_float system = float_truediv (- alpha system) (beta system)"

definition sys1_float :: pop_system where
  "sys1_float = \<lparr>alpha = round_double (25 / 1000), beta = - round_double (18 / 10000)\<rparr>"


section \<open>Vectors\<close>

text \<open>
  \<open>Vector(x, y)\<close> and \<open>Vector(x, y, z)\<close> build a vector of two or three components.
  The constructor and the vector operations live in \<open>modsim.py\<close>, which is not among the
  notebooks; the chapters only call them.
\<close>

datatype vector = Vector2 real real | Vector3 real real real

fun vec_x :: "vector \<Rightarrow> real" where
  "vec_x (Vector2 a b) = a"
| "vec_x (Vector3 a b c) = a"

fun vec_y :: "vector \<Rightarrow> real" where
  "vec_y (Vector2 a b) = b"
| "vec_y (Vector3 a b c) = b"

text \<open>
  Modelled from the spec: the vector arithmetic of \<open>modsim.py\<close> (section 4.1 of the spec):
  scalar \<open>*\<close> and \<open>/\<close> apply to every field, \<open>+\<close> is elementwise on vectors of the
  same shape, and the magnitude is the Euclidean norm over all fields. The spec names no
  result for \<open>+\<close> on different shapes other than its ConfigurationError, and none for
  a division by the scalar zero, which is Python's ZeroDivisionError here.
\<close>

fun vector_scale :: "real \<Rightarrow> vector \<Rightarrow> vector" where
  "vector_scale c (Vector2 a b) = Vector2 (c * a) (c * b)"
| "vector_scale c (Vector3 a b d) = Vector3 (c * a) (c * b) (c * d)"

fun vector_neg :: "vector \<Rightarrow> vector" where
  "vector_neg (Vector2 a b) = Vector2 (- a) (- b)"
| "vector_neg (Vector3 a b d) = Vector3 (- a) (- b) (- d)"

fun vector_add :: "vector \<Rightarrow> vector \<Rightarrow> error + vector" where
  "vector_add (Vector2 a b) (Vector2 a' b') = Inr (Vector2 (a + a') (b + b'))"
| "vector_add (Vector3 a b d) (Vector3 a' b' d') = Inr (Vector3 (a + a') (b + b') (d + d'))"
| "vector_add _ _ = Inl ConfigurationError"

fun vector_div :: "vector \<Rightarrow> real \<Rightarrow> error + vector" where
  "vector_div (Vector2 a b) c =
     (if c = 0 then Inl ZeroDivisionError else Inr (Vector2 (a / c) (b / c)))"
| "vector_div (Vector3 a b d) c =
     (if c = 0 then Inl ZeroDivisionError else Inr (Vector3 (a / c) (b / c) (d / c)))"

fun vector_mag :: "vector \<Rightarrow> real" where
  "vector_mag (Vector2 a b) = sqrt (a ^ 2 + b ^ 2)"
| "vector_mag (Vector3 a b d) = sqrt (a ^ 2 + b ^ 2 + d ^ 2)"

text \<open>
  Modelled from the spec: \<open>vector_hat\<close> of \<open>modsim.py\<close>, the spec's
  \<open>unit_direction\<close>: it "returns \<open>v / magnitude(v)\<close> and fails with a
  DivideByZero-class error when \<open>magnitude(v) == 0\<close>". The results below use it on
  vectors of nonzero magnitude only.
\<close>

definition vector_hat :: "vector \<Rightarrow> error + vector" where
  "vector_hat v =
     (let mag = vector_mag v
      in if mag = 0 then Inl DivideByZero else vector_div v mag)"

section \<open>Polar coordinates\<close>

text \<open>
  Modelled from the spec: \<open>pol2cart\<close> and \<open>vector_angle\<close> of \<open>modsim.py\<close>, the spec's
  \<open>from_polar(theta, r) = (r cos theta, r sin theta)\<close> and the angle
  \<open>atan2(v.y, v.x)\<close> of \<open>to_polar\<close> (section 4.1). \<open>atan2\<close> is the two-argument
  arctangent of the numerical library: away from the origin, the angle of the point
  \<open>(x, y)\<close> in the interval from \<open>-pi\<close> (excluded) to \<open>pi\<close> (included). At the
  origin the spec fixes no value, and the library's result depends on the signs of the two
  floating-point zeros (0 for two positive zeros, \<open>pi\<close> or \<open>-pi\<close> when \<open>x\<close> is a
  negative zero), which a real number does not carry: the value at the origin is the
  parameter \<open>at_origin\<close> of the model.
\<close>

definition atan2 :: "real \<Rightarrow> real \<Rightarrow> real \<Rightarrow> real" where
  "atan2 at_origin y x =
     (if 0 < x then arctan (y / x)
      else if x < 0 then (if 0 \<le> y then arctan (y / x) + pi else arctan (y / x) - pi)
      else if 0 < y then pi / 2
      else if y < 0 then - (pi / 2)
      else at_origin)"

definition pol2cart :: "real \<Rightarrow> real \<Rightarrow> real \<times> real" where
  "pol2cart theta r = (r * cos theta, r * sin theta)"

definition vector_angle :: "real \<Rightarrow> vector \<Rightarrow> real" where
  "vector_angle at_origin v = atan2 at_origin (vec_y v) (vec_x v)"

text \<open>
  The vector built from polar coordinates, as chapter 22 builds it:
  \<^verbatim>\<open>
  x, y = pol2cart(theta, mag)
  Vector(x, y)
  \<close>
\<close>

definition polar_vector :: "real \<Rightarrow> real \<Rightarrow> vector" where
  "polar_vector theta r = (case pol2cart theta r of (x, y) \<Rightarrow> Vector2 x y)"

text \<open>
  The angle \<open>theta mod 2 pi\<close> that the round-trip property speaks of: the representative
  of \<open>theta\<close> between 0 (included) and \<open>2 pi\<close> (excluded). Two angles denote the
  same direction exactly when they have the same representative.
\<close>

definition mod_2pi :: "real \<Rightarrow> real" where
  "mod_2pi theta = theta - 2 * pi * of_int \<lfloor>theta / (2 * pi)\<rfloor>"

section \<open>Linear interpolation\<close>

text \<open>
  \<open>interpolate\<close> is called in chapters 17 and 22 (\<open>I = interpolate(data.insulin)\<close>,
  \<open>drag_interp = interpolate(baseball_drag['Drag coefficient'])\<close>) and defined in
  \<open>modsim.py\<close>, which is not among the notebooks. A series is its list of
  (time, value) samples in the order of the index.
\<close>

type_synonym series = "(real \<times> real) list"

datatype extrapolation = Disallowed | Flat | Linear

text \<open>The straight line through two samples, evaluated at \<open>t\<close>.\<close>

fun line_through :: "real \<times> real \<Rightarrow> real \<times> real \<Rightarrow> real \<Rightarrow> real" where
  "line_through (t0, v0) (t1, v1) t = v0 + (t - t0) * (v1 - v0) / (t1 - t0)"

text \<open>
  Modelled from the spec: \<open>interpolate\<close> of \<open>modsim.py\<close> (section 4.3 of the spec).
  Inside the sampled range the samples are searched from the left for \<open>t\<close> itself or
  for the two adjacent samples that bracket it. Outside the range the result follows the
  \<open>allow_extrapolation\<close> option: an OutOfDomain error when extrapolation is not
  allowed, the value of the nearest sample when it is flat, the line through the two
  nearest samples when it is linear (a series of one sample has no slope and gives
  its value). An empty series has no range and every query is out of its domain.
\<close>

fun interp_inside :: "series \<Rightarrow> real \<Rightarrow> real option" where
  "interp_inside [] t = None"
| "interp_inside [(t0, v0)] t = (if t = t0 then Some v0 else None)"
| "interp_inside ((t0, v0) # (t1, v1) # rest) t =
     (if t = t0 then Some v0
      else if t0 < t \<and> t < t1 then Some (line_through (t0, v0) (t1, v1) t)
      else interp_inside ((t1, v1) # rest) t)"

fun extrapolate :: "extrapolation \<Rightarrow> series \<Rightarrow> real \<Rightarrow> error + real" where
  "extrapolate Disallowed ends t = Inl OutOfDomain"
| "extrapolate Flat [] t = Inl OutOfDomain"
| "extrapolate Flat (p # _) t = Inr (snd p)"
| "extrapolate Linear [] t = Inl OutOfDomain"
| "extrapolate Linear [p] t = Inr (snd p)"
| "extrapolate Linear (p # q # _) t = Inr (line_through p q t)"

definition interpolate :: "extrapolation \<Rightarrow> series \<Rightarrow> real \<Rightarrow> error + real" where
  "interpolate allow_extrapolation series t =
     (case series of
        [] \<Rightarrow> Inl OutOfDomain
      | p # _ \<Rightarrow>
          if t < fst p then extrapolate allow_extrapolation series t
          else if fst (last series) < t then extrapolate allow_extrapolation (rev series) t
          else (case interp_inside series t of
                  Some v \<Rightarrow> Inr v
                | None \<Rightarrow> Inl OutOfDomain))"

text \<open>The times of a series are strictly increasing, hence unique.\<close>

definition increasing_times :: "series \<Rightarrow> bool" where
  "increasing_times series = sorted_wrt (<) (map fst series)"

text \<open>The samples \<open>(0,0), (10,10), (20,5)\<close> of the spec's testable properties.\<close>

definition example_series :: series where
  "example_series = [(0, 0), (10, 10), (20, 5)]"

section \<open>System parameters of the mechanics chapters\<close>

text \<open>
  The \<open>System\<close> objects of chapters 20 and 22 and of the Spider-Man case study are bags
  of named parameters. The record holds the parameters that the functions below read:
  gravity \<open>g\<close>, \<open>mass\<close>, air density \<open>rho\<close>, drag coefficient \<open>C_d\<close>, frontal
  \<open>area\<close>, and the spring constant \<open>k\<close> and rest length of the webbing
  (\<open>system.length\<close> in the source).
\<close>

record system =
  g :: real
  mass :: real
  rho :: real
  C_d :: real
  area :: real
  k :: real
  length_web :: real

section \<open>Chapter 20: the falling penny\<close>

text \<open>\<open>State(y=381, v=0)\<close>: the fields in the order the slope function unpacks them.\<close>

type_synonym penny_state = "real \<times> real"

definition init :: penny_state where
  "init = (381, 0)"

text \<open>
  \<^verbatim>\<open>
  def slope_func(t, state, system):
      y, v = state
      dydt = v
      dvdt = -system.g
      return dydt, dvdt
  \<close>
\<close>

fun slope_func_penny :: "real \<Rightarrow> penny_state \<Rightarrow> system \<Rightarrow> real \<times> real" where
  "slope_func_penny t (y, v) system = (v, - g system)"

text \<open>
  \<^verbatim>\<open>
  def event_func(t, state, system):
      y, v = state
      return y
  \<close>
\<close>

fun event_func_penny :: "real \<Rightarrow> penny_state \<Rightarrow> system \<Rightarrow> real" where
  "event_func_penny t (y, v) system = y"

section \<open>Chapter 22: the baseball\<close>

text \<open>
  \<^verbatim>\<open>
  def drag_force(V, system):
      rho, C_d, area = system.rho, system.C_d, system.area
      mag = rho * vector_mag(V)**2 * C_d * area / 2
      direction = -vector_hat(V)
      f_drag = mag * direction
      return f_drag
  \<close>
\<close>

definition drag_force :: "vector \<Rightarrow> system \<Rightarrow> error + vector" where
  "drag_force V system =
     (let mag = rho system * vector_mag V ^ 2 * C_d system * area system / 2
      in case vector_hat V of
           Inl e \<Rightarrow> Inl e
         | Inr h \<Rightarrow> (let direction = vector_neg h in Inr (vector_scale mag direction)))"

text \<open>\<open>State(x, y, vx, vy)\<close>, in the order the functions unpack it.\<close>

type_synonym ball_state = "real \<times> real \<times> real \<times> real"

text \<open>
  \<^verbatim>\<open>
  def slope_func(t, state, system):
      x, y, vx, vy = state
      mass, g = system.mass, system.g
      V = Vector(vx, vy)
      a_drag = drag_force(V, system) / mass
      a_grav = g * Vector(0, -1)
      A = a_grav + a_drag
      return V.x, V.y, A.x, A.y
  \<close>
\<close>

fun slope_func :: "real \<Rightarrow> ball_state \<Rightarrow> system \<Rightarrow> error + real \<times> real \<times> real \<times> real" where
  "slope_func t (x, y, vx, vy) system =
     (let V = Vector2 vx vy
      in case drag_force V system of
           Inl e \<Rightarrow> Inl e
         | Inr f_drag \<Rightarrow>
             (case vector_div f_drag (mass system) of
                Inl e \<Rightarrow> Inl e
              | Inr a_drag \<Rightarrow>
                  (let a_grav = vector_scale (g system) (Vector2 0 (- 1))
                   in case vector_add a_grav a_drag of
                        Inl e \<Rightarrow> Inl e
                      | Inr A \<Rightarrow> Inr (vec_x V, vec_y V, vec_x A, vec_y A))))"

text \<open>
  \<^verbatim>\<open>
  def event_func(t, state, system):
      x, y, vx, vy = state
      return y
  \<close>
\<close>

fun event_func :: "real \<Rightarrow> ball_state \<Rightarrow> system \<Rightarrow> real" where
  "event_func t (x, y, vx, vy) system = y"

text \<open>The baseball of the chapter: mass 145 g, diameter 73 mm, \<open>C_d = 0.33\<close>.\<close>

definition baseball :: system where
  "baseball = \<lparr>g = 98 / 10, mass = 145 / 1000, rho = 12 / 10, C_d = 33 / 100,
     area = pi * ((73 / 1000) / 2) ^ 2, k = 0, length_web = 0\<rparr>"

section \<open>Case study: Spider-Man\<close>

text \<open>
  \<^verbatim>\<open>
  def spring_force(L, system):
      extension = L.mag - system.length
      if magnitude(extension) < 0:
          mag = 0
      else:
          mag = system.k * extension
      direction = -L.hat()
      f_spring = direction * mag
      return f_spring
  \<close>
  \<open>L.mag\<close> and \<open>L.hat()\<close> are \<open>vector_mag\<close> and \<open>vector_hat\<close>. The function
  \<open>magnitude\<close> comes from \<open>modsim.py\<close> and is not among the notebooks: it is the first
  parameter of the model. In the case study \<open>extension\<close> is a quantity with a unit
  (\<open>length = 100 * m\<close>), and the magnitude of a quantity is its number without the unit
  (chapter 22 reads it as \<open>mps.magnitude\<close>); the model carries no units, so that
  function is \<open>id\<close> here. The chapter says of the webbing that its spring constant is
  "40 N / m when the cord is stretched, and 0 when it's compressed".
\<close>

definition spring_force :: "(real \<Rightarrow> real) \<Rightarrow> vector \<Rightarrow> system \<Rightarrow> error + vector" where
  "spring_force magnitude L system =
     (let extension = vector_mag L - length_web system;
          mag = (if magnitude extension < 0 then 0 else k system * extension)
      in case vector_hat L of
           Inl e \<Rightarrow> Inl e
         | Inr h \<Rightarrow> (let direction = vector_neg h in Inr (vector_scale mag direction)))"

text \<open>
  The parameters of the case study (\<open>g = 9.8\<close>, mass 75, area 1, \<open>rho = 1.2\<close>,
  webbing of length 100 with \<open>k = 40\<close>, and \<open>C_d\<close> computed by \<open>make_system\<close> from
  the terminal velocity 60), and the system of its second phase, where the webbing is
  released: \<open>System(system1, ..., k=0)\<close>.
\<close>

definition spider :: system where
  "spider = \<lparr>g = 98 / 10, mass = 75, rho = 12 / 10,
     C_d = 2 * 75 * (98 / 10) / (12 / 10 * 1 * 60 ^ 2), area = 1, k = 40, length_web = 100\<rparr>"

definition spider_released :: system where
  "spider_released = spider\<lparr>k := 0\<rparr>"

section \<open>Facts about floating-point rounding\<close>

text \<open>The exponent found by \<open>binade\<close> is the power of two at or below its argument.\<close>

lemma binade_numeral:
  "binade (numeral w) a =
     (if a < 1 then binade (pred_numeral w) (2 * a) - 1
      else if 2 \<le> a then binade (pred_numeral w) (a / 2) + 1
      else 0)"
  by (simp add: numeral_eq_Suc)

lemma binade_correct:
  "1 / 2 ^ n \<le> a \<Longrightarrow> a < 2 ^ n \<Longrightarrow>
     2 powi (binade n a) \<le> a \<and> a < 2 powi (binade n a + 1)"
proof (induction n arbitrary: a)
  case 0
  then show ?case by simp
next
  case (Suc n)
  consider "a < 1" | "2 \<le> a" | "1 \<le> a" "a < 2" by linarith
  then show ?case
  proof cases
    case 1
    from Suc.prems(1) have lo: "1 / 2 ^ n \<le> 2 * a" by (simp add: field_simps)
    have hi: "2 * a < 2 ^ n \<or> n = 0"
    proof (cases n)
      case 0
      then show ?thesis by simp
    next
      case (Suc m)
      have "(1::real) \<le> 2 ^ m" by simp
      then have "(2::real) \<le> 2 ^ n" using Suc by simp
      with 1 show ?thesis by linarith
    qed
    show ?thesis
    proof (cases "2 * a < 2 ^ n")
      case True
      from Suc.IH [OF lo True]
      have "2 powi (binade n (2 * a)) \<le> 2 * a" and "2 * a < 2 powi (binade n (2 * a) + 1)"
        by simp_all
      then have "2 powi (binade n (2 * a) - 1) \<le> a" and "a < 2 powi (binade n (2 * a))"
        by (simp_all add: power_int_diff power_int_add)
      with 1 show ?thesis by simp
    next
      case False
      with hi have n0: "n = 0" by simp
      with lo 1 have "1 \<le> 2 * a" by simp
      with 1 n0 show ?thesis by (simp add: power_int_minus)
    qed
  next
    case 2
    from Suc.prems(2) have hi: "a / 2 < 2 ^ n" by simp
    have "1 / 2 ^ n \<le> (1::real)" by (simp add: field_simps)
    with 2 have lo: "1 / 2 ^ n \<le> a / 2" by linarith
    from Suc.IH [OF lo hi]
    have "2 powi (binade n (a / 2)) \<le> a / 2" and "a / 2 < 2 powi (binade n (a / 2) + 1)"
      by simp_all
    then have "2 powi (binade n (a / 2) + 1) \<le> a" and "a < 2 powi (binade n (a / 2) + 1 + 1)"
      by (simp_all add: power_int_add)
    with 2 show ?thesis by simp
  next
    case 3
    then show ?thesis by simp
  qed
qed

lemma exponent_correct:
  assumes "0 < a"
  shows "2 powi (exponent a) \<le> a \<and> a < 2 powi (exponent a + 1)"
proof -
  let ?n = "nat \<lceil>max a (1 / a)\<rceil>"
  have nn: "max a (1 / a) \<le> real ?n" by linarith
  have pw: "real ?n < 2 ^ ?n" by (rule of_nat_less_two_power)
  have "a \<le> max a (1 / a)" and "1 / a \<le> max a (1 / a)" by simp_all
  with nn pw have hi: "a < 2 ^ ?n" and "1 / a < 2 ^ ?n" by linarith+
  with assms have lo: "1 / 2 ^ ?n \<le> a" by (simp add: field_simps)
  from binade_correct [OF lo hi] show ?thesis by (simp add: exponent_def)
qed

lemma round_alpha: "round_double (25 / 1000) = 7205759403792794 / 2 ^ 58"
proof -
  have e: "exponent \<bar>25 / 1000\<bar> = - 6"
    by (simp add: exponent_def binade_numeral)
  show ?thesis
    unfolding round_double_def Let_def e by (simp add: round_half_even_def)
qed

lemma round_beta: "round_double (18 / 10000) = 8301034833169298 / 2 ^ 62"
proof -
  have e: "exponent \<bar>18 / 10000\<bar> = - 10"
    by (simp add: exponent_def binade_numeral)
  show ?thesis
    unfolding round_double_def Let_def e by (simp add: round_half_even_def)
qed

lemma round_K: "round_double (- (7205759403792794 / 2 ^ 58) / (- (8301034833169298 / 2 ^ 62)))
    = 7818749353073778 / 2 ^ 49"
proof -
  have e: "exponent \<bar>- (7205759403792794 / 2 ^ 58) / (- (8301034833169298 / 2 ^ 62))\<bar> = 3"
    by (simp add: exponent_def binade_numeral)
  show ?thesis
    unfolding round_double_def Let_def e by (simp add: round_half_even_def)
qed

lemma round_alpha_K:
  "round_double (7205759403792794 / 2 ^ 58 * (7818749353073778 / 2 ^ 49))
    = 6254999482459023 / 2 ^ 54"
proof -
  have e: "exponent \<bar>7205759403792794 / 2 ^ 58 * (7818749353073778 / 2 ^ 49)\<bar> = - 2"
    by (simp add: exponent_def binade_numeral)
  show ?thesis
    unfolding round_double_def Let_def e by (simp add: round_half_even_def)
qed

lemma round_K_K:
  "round_double (7818749353073778 / 2 ^ 49 * (7818749353073778 / 2 ^ 49))
    = 6787108813432099 / 2 ^ 45"
proof -
  have e: "exponent \<bar>7818749353073778 / 2 ^ 49 * (7818749353073778 / 2 ^ 49)\<bar> = 7"
    by (simp add: exponent_def binade_numeral)
  show ?thesis
    unfolding round_double_def Let_def e by (simp add: round_half_even_def)
qed

lemma round_beta_K_K:
  "round_double (- (8301034833169298 / 2 ^ 62) * (6787108813432099 / 2 ^ 45))
    = - (6254999482459022 / 2 ^ 54)"
proof -
  have e: "exponent \<bar>- (8301034833169298 / 2 ^ 62) * (6787108813432099 / 2 ^ 45)\<bar> = - 2"
    by (simp add: exponent_def binade_numeral)
  show ?thesis
    unfolding round_double_def Let_def e by (simp add: round_half_even_def)
qed

lemma round_sum:
  "round_double (6254999482459023 / 2 ^ 54 + - (6254999482459022 / 2 ^ 54)) = 1 / 2 ^ 54"
proof -
  have e: "exponent \<bar>6254999482459023 / 2 ^ 54 + - (6254999482459022 / 2 ^ 54)\<bar> = - 54"
    by (simp add: exponent_def binade_numeral)
  show ?thesis
    unfolding round_double_def Let_def e by (simp add: round_half_even_def)
qed

section \<open>Facts about vectors\<close>

lemma vector_mag_nonneg: "0 \<le> vector_mag v"
  by (cases v) simp_all

lemma vector_mag_scale: "vector_mag (vector_scale c v) = \<bar>c\<bar> * vector_mag v"
proof (cases v)
  case (Vector2 a b)
  have "(c * a) ^ 2 + (c * b) ^ 2 = c ^ 2 * (a ^ 2 + b ^ 2)"
    by (simp add: power_mult_distrib distrib_left)
  then show ?thesis
    using Vector2 by (simp add: real_sqrt_mult)
next
  case (Vector3 a b d)
  have "(c * a) ^ 2 + (c * b) ^ 2 + (c * d) ^ 2 = c ^ 2 * (a ^ 2 + b ^ 2 + d ^ 2)"
    by (simp add: power_mult_distrib distrib_left)
  then show ?thesis
    using Vector3 by (simp add: real_sqrt_mult)
qed

lemma vector_mag_neg: "vector_mag (vector_neg v) = vector_mag v"
  by (cases v) simp_all

lemma vector_div_scale: "c \<noteq> 0 \<Longrightarrow> vector_div v c = Inr (vector_scale (1 / c) v)"
  by (cases v) simp_all

lemma vector_hat_nonzero:
  "vector_mag v \<noteq> 0 \<Longrightarrow> vector_hat v = Inr (vector_scale (1 / vector_mag v) v)"
  by (simp add: vector_hat_def Let_def vector_div_scale)

lemma vector_hat_unit:
  assumes "vector_mag v \<noteq> 0" and "vector_hat v = Inr h"
  shows "vector_mag h = 1"
proof -
  have "h = vector_scale (1 / vector_mag v) v"
    using assms vector_hat_nonzero by simp
  then have "vector_mag h = \<bar>1 / vector_mag v\<bar> * vector_mag v"
    by (simp add: vector_mag_scale)
  with assms(1) vector_mag_nonneg [of v] show ?thesis by simp
qed

lemma vector_neg_scale: "vector_neg (vector_scale c v) = vector_scale (- c) v"
  by (cases v) simp_all

lemma vector_scale_scale: "vector_scale a (vector_scale b v) = vector_scale (a * b) v"
  by (cases v) (simp_all add: mult.assoc)

lemma vector_scale_neg: "vector_scale a (vector_neg v) = vector_scale (- a) v"
  by (cases v) simp_all

lemma vector_mag_3_4: "vector_mag (Vector2 3 4) = 5"
proof -
  have "sqrt (3 ^ 2 + 4 ^ 2) = sqrt (5 ^ 2)" by simp
  then show ?thesis by (simp del: real_sqrt_four)
qed

section \<open>Facts about angles\<close>

lemma atan2_range:
  assumes "x \<noteq> 0 \<or> y \<noteq> 0"
  shows "- pi < atan2 at_origin y x \<and> atan2 at_origin y x \<le> pi"
proof -
  have b: "- (pi / 2) < arctan (y / x)" "arctan (y / x) < pi / 2"
    by (rule arctan_lbound, rule arctan_ubound)
  consider "0 < x" | "x < 0" "0 \<le> y" | "x < 0" "y < 0" | "x = 0" "y \<noteq> 0"
    using assms by linarith
  then show ?thesis
  proof cases
    case 1
    with b show ?thesis by (simp add: atan2_def)
  next
    case 2
    then have "y / x \<le> 0" by (simp add: divide_nonneg_neg)
    then have "arctan (y / x) \<le> 0" by simp
    moreover have "0 < pi" by simp
    ultimately have "- pi < arctan (y / x) + pi \<and> arctan (y / x) + pi \<le> pi"
      using b by linarith
    with 2 show ?thesis by (simp add: atan2_def)
  next
    case 3
    then have "0 < y / x" by (simp add: divide_neg_neg)
    then have "0 < arctan (y / x)" by simp
    moreover have "0 < pi" by simp
    ultimately have "- pi < arctan (y / x) - pi \<and> arctan (y / x) - pi \<le> pi"
      using b by linarith
    with 3 show ?thesis by (simp add: atan2_def)
  next
    case 4
    have "0 < pi" by simp
    then have "- pi < pi / 2 \<and> pi / 2 \<le> pi \<and> - pi < - (pi / 2) \<and> - (pi / 2) \<le> pi"
      by linarith
    with 4 show ?thesis by (auto simp add: atan2_def)
  qed
qed

lemma sqrt_one_plus_ratio:
  assumes "x \<noteq> 0"
  shows "sqrt (1 + (y / x)\<^sup>2) = sqrt (x\<^sup>2 + y\<^sup>2) / \<bar>x\<bar>"
proof -
  have "1 + (y / x)\<^sup>2 = (x\<^sup>2 + y\<^sup>2) / x\<^sup>2"
    using assms by (simp add: power_divide add_divide_distrib)
  then show ?thesis by (simp add: real_sqrt_divide)
qed

lemma atan2_cos_sin:
  assumes "x \<noteq> 0 \<or> y \<noteq> 0"
  shows "cos (atan2 at_origin y x) = x / sqrt (x\<^sup>2 + y\<^sup>2)"
    and "sin (atan2 at_origin y x) = y / sqrt (x\<^sup>2 + y\<^sup>2)"
proof -
  have pos: "0 < sqrt (x\<^sup>2 + y\<^sup>2)"
    using assms by (auto simp: sum_power2_gt_zero_iff)
  have c: "cos (arctan (y / x)) = \<bar>x\<bar> / sqrt (x\<^sup>2 + y\<^sup>2)" if "x \<noteq> 0"
    using that by (simp add: cos_arctan sqrt_one_plus_ratio)
  have s: "sin (arctan (y / x)) = (y / x) * \<bar>x\<bar> / sqrt (x\<^sup>2 + y\<^sup>2)" if "x \<noteq> 0"
    using that by (simp add: sin_arctan sqrt_one_plus_ratio)
  consider "0 < x" | "x < 0" | "x = 0" "0 < y" | "x = 0" "y < 0"
    using assms by linarith
  then have "cos (atan2 at_origin y x) = x / sqrt (x\<^sup>2 + y\<^sup>2) \<and> sin (atan2 at_origin y x) = y / sqrt (x\<^sup>2 + y\<^sup>2)"
  proof cases
    case 1
    with c s show ?thesis by (simp add: atan2_def)
  next
    case 2
    with c s show ?thesis by (simp add: atan2_def)
  next
    case 3
    then show ?thesis by (simp add: atan2_def)
  next
    case 4
    then have "sqrt (y\<^sup>2) = - y" by simp
    with 4 show ?thesis by (simp add: atan2_def del: real_sqrt_abs)
  qed
  then show "cos (atan2 at_origin y x) = x / sqrt (x\<^sup>2 + y\<^sup>2)"
    and "sin (atan2 at_origin y x) = y / sqrt (x\<^sup>2 + y\<^sup>2)" by simp_all
qed

lemma polar_norm: "sqrt ((r * cos theta)\<^sup>2 + (r * sin theta)\<^sup>2) = \<bar>r\<bar>"
proof -
  have "(r * cos theta)\<^sup>2 + (r * sin theta)\<^sup>2 = r\<^sup>2 * ((cos theta)\<^sup>2 + (sin theta)\<^sup>2)"
    by (simp only: power_mult_distrib distrib_left)
  also have "\<dots> = r\<^sup>2" by (simp only: sin_cos_squared_add2 mult_1_right)
  finally have "sqrt ((r * cos theta)\<^sup>2 + (r * sin theta)\<^sup>2) = sqrt (r\<^sup>2)"
    by (rule arg_cong)
  then show ?thesis by (simp only: real_sqrt_abs)
qed

lemma atan2_polar:
  assumes "0 < r"
  shows "\<exists>n::int. atan2 at_origin (r * sin theta) (r * cos theta) = theta + 2 * pi * of_int n"
proof -
  let ?a = "atan2 at_origin (r * sin theta) (r * cos theta)"
  have nz: "r * cos theta \<noteq> 0 \<or> r * sin theta \<noteq> 0"
  proof (rule ccontr)
    assume "\<not> ?thesis"
    with assms have "cos theta = 0" and "sin theta = 0" by simp_all
    with sin_cos_squared_add [of theta] show False by simp
  qed
  from atan2_cos_sin [OF nz] assms
  have "cos ?a = cos theta" and "sin ?a = sin theta"
    by (simp_all add: polar_norm)
  then show ?thesis using sin_cos_eq_iff [of ?a theta] by blast
qed

lemma mod_2pi_shift: "mod_2pi (theta + 2 * pi * of_int n) = mod_2pi theta"
proof -
  have "(theta + 2 * pi * of_int n) / (2 * pi) = theta / (2 * pi) + of_int n"
    by (simp add: add_divide_distrib)
  then have "\<lfloor>(theta + 2 * pi * of_int n) / (2 * pi)\<rfloor> = \<lfloor>theta / (2 * pi)\<rfloor> + n"
    by simp
  then show ?thesis by (simp add: mod_2pi_def algebra_simps)
qed

lemma mod_2pi_one: "mod_2pi 1 = 1"
proof -
  have "2 \<le> pi" by (rule pi_ge_two)
  then have "0 \<le> 1 / (2 * pi)" and "1 / (2 * pi) < 1" by simp_all
  then have "\<lfloor>1 / (2 * pi)\<rfloor> = 0" by (simp add: floor_eq_iff)
  then show ?thesis by (simp add: mod_2pi_def)
qed

section \<open>Facts about interpolation\<close>

lemma interp_inside_sample:
  "sorted_wrt (<) (map fst series) \<Longrightarrow> (s, v) \<in> set series \<Longrightarrow> interp_inside series s = Some v"
proof (induction series s rule: interp_inside.induct)
  case (1 t)
  then show ?case by simp
next
  case (2 t0 v0 t)
  then show ?case by simp
next
  case (3 t0 v0 t1 v1 rest t)
  show ?case
  proof (cases "t = t0")
    case True
    from 3(2) have "\<forall>p \<in> set ((t1, v1) # rest). t0 < fst p" by auto
    with 3(3) True have "v = v0" by force
    with True show ?thesis by simp
  next
    case False
    with 3(3) have mem: "(t, v) \<in> set ((t1, v1) # rest)" by auto
    from 3(2) have srt: "sorted_wrt (<) (map fst ((t1, v1) # rest))" by simp
    from srt mem have "t1 \<le> t" by force
    with False 3(1) [OF False _ srt mem] show ?thesis by simp
  qed
qed

lemma interp_inside_between:
  "sorted_wrt (<) (map fst series) \<Longrightarrow> Suc i < length series
   \<Longrightarrow> fst (series ! i) < t \<Longrightarrow> t < fst (series ! Suc i)
   \<Longrightarrow> interp_inside series t = Some (line_through (series ! i) (series ! Suc i) t)"
proof (induction series t arbitrary: i rule: interp_inside.induct)
  case (1 t)
  then show ?case by simp
next
  case (2 t0 v0 t)
  then show ?case by simp
next
  case (3 t0 v0 t1 v1 rest t)
  show ?case
  proof (cases i)
    case 0
    with 3(4,5) show ?thesis by simp
  next
    case (Suc j)
    from 3(2) have srt: "sorted_wrt (<) (map fst ((t1, v1) # rest))" by simp
    from 3(3) Suc have len: "Suc j < length ((t1, v1) # rest)" by simp
    from 3(4) Suc have lo: "fst (((t1, v1) # rest) ! j) < t" by simp
    from 3(5) Suc have hi: "t < fst (((t1, v1) # rest) ! Suc j)" by simp
    have "t1 \<le> fst (((t1, v1) # rest) ! j)"
    proof (cases j)
      case 0 then show ?thesis by simp
    next
      case (Suc m)
      with srt len have "t1 < fst (rest ! m)" by (auto simp: all_set_conv_all_nth)
      with Suc show ?thesis by simp
    qed
    with lo have t1: "t1 < t" by simp
    from 3(2) have "t0 < t1" by simp
    with t1 have ne: "t \<noteq> t0" and nb: "\<not> (t0 < t \<and> t < t1)" by auto
    have "interp_inside ((t0, v0) # (t1, v1) # rest) t = interp_inside ((t1, v1) # rest) t"
      using ne t1 by simp
    also have "\<dots> = Some (line_through (((t1, v1) # rest) ! j) (((t1, v1) # rest) ! Suc j) t)"
      by (rule 3(1) [OF ne nb srt len lo hi])
    finally show ?thesis using Suc by simp
  qed
qed

lemma increasing_first_last:
  fixes series :: series
  assumes "sorted_wrt (<) (map fst series)" and "p \<in> set series"
  shows "fst (hd series) \<le> fst p \<and> fst p \<le> fst (last series)"
proof -
  from assms(2) obtain i where i: "i < length series" and p: "series ! i = p"
    by (auto simp: in_set_conv_nth)
  then have ne: "series \<noteq> []" by auto
  have srt: "sorted_wrt (<) (map fst series)" by (rule assms(1))
  have lo: "fst (series ! 0) \<le> fst (series ! i)"
  proof (cases "i = 0")
    case True then show ?thesis by simp
  next
    case False
    with i ne have "0 < i" and "0 < length series" by simp_all
    with i sorted_wrt_nth_less [OF srt, of 0 i] show ?thesis by (simp add: nth_map)
  qed
  have hi: "fst (series ! i) \<le> fst (series ! (length series - 1))"
  proof (cases "i = length series - 1")
    case True then show ?thesis by simp
  next
    case False
    with i have "i < length series - 1" and "length series - 1 < length series" by simp_all
    with sorted_wrt_nth_less [OF srt, of i "length series - 1"] i show ?thesis
      by (simp add: nth_map)
  qed
  from lo hi p ne show ?thesis by (simp add: hd_conv_nth last_conv_nth)
qed

lemma increasing_Min_Max:
  fixes series :: series
  assumes "sorted_wrt (<) (map fst series)" and "series \<noteq> []"
  shows "Min (fst ` set series) = fst (hd series)" and "Max (fst ` set series) = fst (last series)"
proof -
  show "Min (fst ` set series) = fst (hd series)"
  proof (rule Min_eqI)
    show "finite (fst ` set series)" by simp
    show "fst (hd series) \<in> fst ` set series" using assms(2) by simp
    fix y assume "y \<in> fst ` set series"
    then show "fst (hd series) \<le> y" using increasing_first_last [OF assms(1)] by auto
  qed
  show "Max (fst ` set series) = fst (last series)"
  proof (rule Max_eqI)
    show "finite (fst ` set series)" by simp
    show "fst (last series) \<in> fst ` set series" using assms(2) by simp
    fix y assume "y \<in> fst ` set series"
    then show "y \<le> fst (last series)" using increasing_first_last [OF assms(1)] by auto
  qed
qed

lemma rev_two:
  assumes "2 \<le> length xs"
  shows "\<exists>rest. rev xs = last xs # xs ! (length xs - 2) # rest"
proof -
  from assms have ne: "xs \<noteq> []" by auto
  from assms have neb: "butlast xs \<noteq> []" by (cases xs) (auto simp: Suc_le_eq)
  have "rev xs = rev (butlast xs @ [last xs])" using ne by simp
  also have "\<dots> = last xs # rev (butlast xs)" by simp
  also have "rev (butlast xs) = rev (butlast (butlast xs) @ [last (butlast xs)])"
    using neb by simp
  also have "\<dots> = last (butlast xs) # rev (butlast (butlast xs))" by simp
  finally have "rev xs = last xs # last (butlast xs) # rev (butlast (butlast xs))" .
  moreover have "last (butlast xs) = xs ! (length xs - 2)"
    using neb assms by (simp add: last_conv_nth nth_butlast numeral_2_eq_2)
  ultimately have "rev xs = last xs # xs ! (length xs - 2) # rev (butlast (butlast xs))"
    by (simp only:)
  then show ?thesis by (rule exI)
qed

section \<open>Results\<close>

text \<open>
  Claim C3. For a series with strictly increasing sample times, the function returned by
  \<open>interpolate\<close> gives at every sample time exactly the value of that sample, and
  strictly between two adjacent sample times the value of the line through the two
  samples, whatever the extrapolation option. For the samples \<open>(0,0), (10,10), (20,5)\<close>
  it gives 5 at 5 and 10 at 10.
\<close>

theorem interpolate_exact:
  assumes "increasing_times series"
  shows "(\<forall>(s, v) \<in> set series. interpolate allow_extrapolation series s = Inr v)
     \<and> (\<forall>i t. Suc i < length series \<and> fst (series ! i) < t \<and> t < fst (series ! Suc i) \<longrightarrow>
            interpolate allow_extrapolation series t
              = Inr (line_through (series ! i) (series ! Suc i) t))
     \<and> interpolate allow_extrapolation example_series 5 = Inr 5
     \<and> interpolate allow_extrapolation example_series 10 = Inr 10"
proof -
  from assms have srt: "sorted_wrt (<) (map fst series)"
    by (simp add: increasing_times_def)
  have inside: "interpolate allow_extrapolation series t = Inr v"
    if "interp_inside series t = Some v" and "fst (hd series) \<le> t" and "t \<le> fst (last series)"
    for t v
    using that by (cases series) (auto simp: interpolate_def)
  have a: "\<forall>(s, v) \<in> set series. interpolate allow_extrapolation series s = Inr v"
  proof safe
    fix s v assume mem: "(s, v) \<in> set series"
    from increasing_first_last [OF srt mem] interp_inside_sample [OF srt mem]
    show "interpolate allow_extrapolation series s = Inr v"
      by (intro inside) simp_all
  qed
  have b: "\<forall>i t. Suc i < length series \<and> fst (series ! i) < t \<and> t < fst (series ! Suc i) \<longrightarrow>
            interpolate allow_extrapolation series t
              = Inr (line_through (series ! i) (series ! Suc i) t)"
  proof (intro allI impI, elim conjE)
    fix i t
    assume len: "Suc i < length series" and lo: "fst (series ! i) < t"
      and hi: "t < fst (series ! Suc i)"
    from len have "series ! i \<in> set series" and "series ! Suc i \<in> set series" by simp_all
    with increasing_first_last [OF srt] lo hi
    have "fst (hd series) \<le> t" and "t \<le> fst (last series)" by fastforce+
    with interp_inside_between [OF srt len lo hi]
    show "interpolate allow_extrapolation series t
              = Inr (line_through (series ! i) (series ! Suc i) t)"
      by (intro inside)
  qed
  have c: "interpolate allow_extrapolation example_series 5 = Inr 5"
    by (simp add: interpolate_def example_series_def)
  have d: "interpolate allow_extrapolation example_series 10 = Inr 10"
    by (simp add: interpolate_def example_series_def)
  from a b c d show ?thesis by blast
qed

theorem interpolate_exact_witness:
  "increasing_times example_series
   \<and> interpolate Disallowed example_series 0 = Inr 0
   \<and> interpolate Disallowed example_series 10 = Inr 10
   \<and> interpolate Disallowed example_series 20 = Inr 5
   \<and> interpolate Disallowed example_series 5 = Inr 5
   \<and> interpolate Disallowed example_series 18 = Inr 6"
proof -
  have inc: "increasing_times example_series"
    by (simp add: increasing_times_def example_series_def)
  note th = interpolate_exact [OF inc, of Disallowed]
  from th have s: "\<forall>(s, v) \<in> set example_series. interpolate Disallowed example_series s = Inr v"
    by blast
  from th have b: "\<And>i t. Suc i < length example_series \<Longrightarrow> fst (example_series ! i) < t
      \<Longrightarrow> t < fst (example_series ! Suc i)
      \<Longrightarrow> interpolate Disallowed example_series t
              = Inr (line_through (example_series ! i) (example_series ! Suc i) t)"
    by blast
  from s have s0: "interpolate Disallowed example_series 0 = Inr 0"
    and s10: "interpolate Disallowed example_series 10 = Inr 10"
    and s20: "interpolate Disallowed example_series 20 = Inr 5"
    by (simp_all add: example_series_def)
  from b [of 0 5] have m5: "interpolate Disallowed example_series 5 = Inr 5"
    by (simp add: example_series_def)
  from b [of 1 18] have m18: "interpolate Disallowed example_series 18 = Inr 6"
    by (simp add: example_series_def)
  from inc s0 s10 s20 m5 m18 show ?thesis by blast
qed

text \<open>
  Claim C4. For a query time outside the sampled range, the function returned by
  \<open>interpolate\<close> fails with OutOfDomain when extrapolation is not allowed, and
  otherwise returns the extrapolated value that the option selects: the value of the
  nearest sample (flat) or of the line through the two nearest samples (linear). It
  returns no other value. For \<open>(0,0), (10,10), (20,5)\<close> the result at 25 is the
  error, 5 or 2.5.
\<close>

theorem interpolate_outside:
  assumes "increasing_times series" and "series \<noteq> []"
    and "t < Min (fst ` set series) \<or> Max (fst ` set series) < t"
  shows "interpolate allow_extrapolation series t =
           (case allow_extrapolation of
              Disallowed \<Rightarrow> Inl OutOfDomain
            | Flat \<Rightarrow> Inr (if t < Min (fst ` set series) then snd (hd series) else snd (last series))
            | Linear \<Rightarrow>
                Inr (if length series < 2 then snd (hd series)
                     else if t < Min (fst ` set series) then line_through (series ! 0) (series ! 1) t
                     else line_through (last series) (series ! (length series - 2)) t))
     \<and> interpolate Disallowed example_series 25 = Inl OutOfDomain
     \<and> interpolate Flat example_series 25 = Inr 5
     \<and> interpolate Linear example_series 25 = Inr (5 / 2)"
proof -
  from assms(1) have srt: "sorted_wrt (<) (map fst series)"
    by (simp add: increasing_times_def)
  note mm = increasing_Min_Max [OF srt assms(2)]
  from assms(2) increasing_first_last [OF srt, of "hd series"]
  have le: "fst (hd series) \<le> fst (last series)" by simp
  have ex: "interpolate Disallowed example_series 25 = Inl OutOfDomain
     \<and> interpolate Flat example_series 25 = Inr 5
     \<and> interpolate Linear example_series 25 = Inr (5 / 2)"
    by (simp add: interpolate_def example_series_def)
  have main: "interpolate allow_extrapolation series t =
           (case allow_extrapolation of
              Disallowed \<Rightarrow> Inl OutOfDomain
            | Flat \<Rightarrow> Inr (if t < fst (hd series) then snd (hd series) else snd (last series))
            | Linear \<Rightarrow>
                Inr (if length series < 2 then snd (hd series)
                     else if t < fst (hd series) then line_through (series ! 0) (series ! 1) t
                     else line_through (last series) (series ! (length series - 2)) t))"
  proof (cases "t < fst (hd series)")
    case True
    then have "interpolate allow_extrapolation series t = extrapolate allow_extrapolation series t"
      using assms(2) by (cases series) (simp_all add: interpolate_def)
    also have "\<dots> = (case allow_extrapolation of
              Disallowed \<Rightarrow> Inl OutOfDomain
            | Flat \<Rightarrow> Inr (snd (hd series))
            | Linear \<Rightarrow>
                Inr (if length series < 2 then snd (hd series)
                     else line_through (series ! 0) (series ! 1) t))"
      using assms(2)
      by (cases series; cases "tl series"; cases allow_extrapolation) simp_all
    finally show ?thesis using True by (simp split: extrapolation.splits)
  next
    case False
    with assms(3) mm have hi: "fst (last series) < t" by simp
    with False have "interpolate allow_extrapolation series t
        = extrapolate allow_extrapolation (rev series) t"
      using assms(2) by (cases series) (simp_all add: interpolate_def)
    also have "\<dots> = (case allow_extrapolation of
              Disallowed \<Rightarrow> Inl OutOfDomain
            | Flat \<Rightarrow> Inr (snd (last series))
            | Linear \<Rightarrow>
                Inr (if length series < 2 then snd (hd series)
                     else line_through (last series) (series ! (length series - 2)) t))"
    proof (cases "length series < 2")
      case True
      with assms(2) obtain p where "series = [p]"
        by (cases series; cases "tl series") auto
      then show ?thesis by (cases allow_extrapolation) simp_all
    next
      case False
      then have "2 \<le> length series" by simp
      from rev_two [OF this] obtain rest
        where r: "rev series = last series # series ! (length series - 2) # rest" by blast
      show ?thesis unfolding r using False by (cases allow_extrapolation) simp_all
    qed
    finally show ?thesis using False by (simp split: extrapolation.splits)
  qed
  from main ex show ?thesis unfolding mm by blast
qed

theorem interpolate_outside_witness:
  "increasing_times example_series \<and> example_series \<noteq> []
   \<and> Max (fst ` set example_series) < 25
   \<and> interpolate Disallowed example_series 25 = Inl OutOfDomain
   \<and> interpolate Flat example_series 25 = Inr 5
   \<and> interpolate Linear example_series 25 = Inr (5 / 2)
   \<and> - 5 < Min (fst ` set example_series)
   \<and> interpolate Linear example_series (- 5) = Inr (- 5)"
proof -
  have inc: "increasing_times example_series"
    by (simp add: increasing_times_def example_series_def)
  have ne: "example_series \<noteq> []" by (simp add: example_series_def)
  have hi: "Max (fst ` set example_series) < 25" by (simp add: example_series_def)
  have lo: "- 5 < Min (fst ` set example_series)" by (simp add: example_series_def)
  from hi have out: "25 < Min (fst ` set example_series) \<or> Max (fst ` set example_series) < 25"
    by (rule disjI2)
  from lo have out': "- 5 < Min (fst ` set example_series) \<or> Max (fst ` set example_series) < - 5"
    by (rule disjI1)
  have d: "interpolate Disallowed example_series 25 = Inl OutOfDomain"
    using interpolate_outside [OF inc ne out, of Disallowed] by simp
  have f: "interpolate Flat example_series 25 = Inr 5"
    using interpolate_outside [OF inc ne out, of Flat] by (simp add: example_series_def)
  have l: "interpolate Linear example_series 25 = Inr (5 / 2)"
    using interpolate_outside [OF inc ne out, of Linear] by (simp add: example_series_def)
  have l': "interpolate Linear example_series (- 5) = Inr (- 5)"
    using interpolate_outside [OF inc ne out', of Linear] by (simp add: example_series_def)
  from inc ne hi d f l lo l' show ?thesis by blast
qed

text \<open>
  Claim C5, as stated, says that \<open>growth_func_quad\<close> returns exactly 0 at the carrying
  capacity. On floats it does not: for \<open>sys1 = System(alpha=0.025, beta=-0.0018)\<close> of
  the chapter, \<open>carrying_capacity\<close> returns the float 13.88888888888889 and
  \<open>growth_func_quad\<close> returns \<open>2^-54\<close>, about 5.55e-17, there.
\<close>

theorem carrying_capacity_float_counterexample:
  "beta sys1_float \<noteq> 0
   \<and> carrying_capacity_float sys1_float = Inr (7818749353073778 / 2 ^ 49)
   \<and> growth_func_quad_float 0 (7818749353073778 / 2 ^ 49) sys1_float = 1 / 2 ^ 54
   \<and> growth_func_quad_float 0 (7818749353073778 / 2 ^ 49) sys1_float \<noteq> 0"
proof -
  have a: "alpha sys1_float = 7205759403792794 / 2 ^ 58"
    unfolding sys1_float_def by (simp only: round_alpha pop_system.select_convs)
  have b: "beta sys1_float = - (8301034833169298 / 2 ^ 62)"
    unfolding sys1_float_def by (simp only: round_beta pop_system.select_convs)
  have b0: "beta sys1_float \<noteq> 0" unfolding b by simp
  have k: "carrying_capacity_float sys1_float = Inr (7818749353073778 / 2 ^ 49)"
    unfolding carrying_capacity_float_def float_truediv_def a b round_K using b0 [unfolded b]
    by (simp only: if_False)
  have g: "growth_func_quad_float 0 (7818749353073778 / 2 ^ 49) sys1_float = 1 / 2 ^ 54"
    unfolding growth_func_quad_float_def float_add_def float_mul_def float_square_def a b
      round_K_K round_alpha_K round_beta_K_K round_sum ..
  have "growth_func_quad_float 0 (7818749353073778 / 2 ^ 49) sys1_float \<noteq> 0"
    unfolding g by simp
  with b0 k g show ?thesis by blast
qed

text \<open>
  Claim C5, amended. For every system with \<open>beta \<noteq> 0\<close>, \<open>carrying_capacity\<close>
  returns \<open>K = -alpha/beta\<close>, and in exact arithmetic the quadratic growth function
  vanishes at that population at every time \<open>t\<close>: the carrying capacity is the
  equilibrium of the model.
\<close>

theorem carrying_capacity_equilibrium:
  assumes "beta system \<noteq> 0"
  shows "carrying_capacity system = Inr (- alpha system / beta system)
         \<and> (\<forall>K t. carrying_capacity system = Inr K \<longrightarrow> growth_func_quad t K system = 0)"
proof -
  have "alpha system * (- alpha system / beta system)
        + beta system * (- alpha system / beta system) ^ 2 = 0"
    using assms by (simp add: power2_eq_square)
  with assms show ?thesis
    by (auto simp add: carrying_capacity_def growth_func_quad_def)
qed

theorem carrying_capacity_equilibrium_witness:
  "beta sys1 \<noteq> 0 \<and> carrying_capacity sys1 = Inr (125 / 9)
   \<and> growth_func_quad 1950 (125 / 9) sys1 = 0"
proof -
  have b: "beta sys1 \<noteq> 0" by (simp add: sys1_def)
  have k: "carrying_capacity sys1 = Inr (125 / 9)"
    using carrying_capacity_equilibrium [OF b] by (simp add: sys1_def)
  from carrying_capacity_equilibrium [OF b] k
  have "growth_func_quad 1950 (125 / 9) sys1 = 0" by blast
  with b k show ?thesis by simp
qed

text \<open>
  Claim C7, as stated for every \<open>r \<ge> 0\<close>, fails at \<open>r = 0\<close>: the vector built from
  the angle 1 and the magnitude 0 is the zero vector, and its angle is not
  \<open>1 mod 2 pi = 1\<close>: it is 0, the library's value for two positive zeros, and it would
  not be 1 were it \<open>pi\<close> or \<open>-pi\<close> either.
\<close>

theorem polar_roundtrip_counterexample:
  "(0::real) \<le> 0
   \<and> vector_mag (polar_vector 1 0) = 0
   \<and> mod_2pi 1 = 1
   \<and> vector_angle 0 (polar_vector 1 0) = 0
   \<and> vector_angle 0 (polar_vector 1 0) \<noteq> mod_2pi 1
   \<and> vector_angle pi (polar_vector 1 0) \<noteq> mod_2pi 1
   \<and> vector_angle (- pi) (polar_vector 1 0) \<noteq> mod_2pi 1"
proof -
  have two: "2 \<le> pi" by (rule pi_ge_two)
  have origin: "vector_angle a (polar_vector 1 0) = a" for a
    by (simp add: polar_vector_def pol2cart_def vector_angle_def atan2_def)
  have mag: "vector_mag (polar_vector 1 0) = 0"
    by (simp add: polar_vector_def pol2cart_def)
  from two have "pi \<noteq> 1" and "- pi \<noteq> 1" by simp_all
  then show ?thesis by (simp add: origin mag mod_2pi_one)
qed

text \<open>
  Claim C7, amended. The vector built by \<open>pol2cart\<close> from \<open>theta\<close> and \<open>r \<ge> 0\<close> has
  magnitude \<open>r\<close>. For \<open>r > 0\<close> its angle denotes the same direction as \<open>theta\<close>
  (the two agree modulo \<open>2 pi\<close>) and lies between \<open>-pi\<close> (excluded) and \<open>pi\<close>
  (included), whatever the library returns at the origin. Nothing is said of the angle
  for \<open>r = 0\<close>.
\<close>

theorem polar_roundtrip:
  "(0 \<le> r \<longrightarrow> vector_mag (polar_vector theta r) = r)
   \<and> (0 < r \<longrightarrow>
        mod_2pi (vector_angle at_origin (polar_vector theta r)) = mod_2pi theta
        \<and> - pi < vector_angle at_origin (polar_vector theta r)
        \<and> vector_angle at_origin (polar_vector theta r) \<le> pi)"
proof -
  have mag: "vector_mag (polar_vector theta r) = \<bar>r\<bar>"
    using polar_norm [of r theta] by (simp add: polar_vector_def pol2cart_def)
  have ang: "vector_angle at_origin (polar_vector theta r)
      = atan2 at_origin (r * sin theta) (r * cos theta)"
    by (simp add: polar_vector_def pol2cart_def vector_angle_def)
  have a: "0 \<le> r \<longrightarrow> vector_mag (polar_vector theta r) = r"
    using mag by simp
  have b: "0 < r \<longrightarrow>
        mod_2pi (vector_angle at_origin (polar_vector theta r)) = mod_2pi theta
        \<and> - pi < vector_angle at_origin (polar_vector theta r)
        \<and> vector_angle at_origin (polar_vector theta r) \<le> pi"
  proof
    assume r: "0 < r"
    have nz: "r * cos theta \<noteq> 0 \<or> r * sin theta \<noteq> 0"
    proof (rule ccontr)
      assume "\<not> ?thesis"
      with r have "cos theta = 0" and "sin theta = 0" by simp_all
      with sin_cos_squared_add [of theta] show False by simp
    qed
    from atan2_polar [OF r, of at_origin theta] obtain n :: int
      where "atan2 at_origin (r * sin theta) (r * cos theta) = theta + 2 * pi * of_int n"
      by blast
    then have "mod_2pi (vector_angle at_origin (polar_vector theta r)) = mod_2pi theta"
      by (simp only: ang mod_2pi_shift)
    with atan2_range [OF nz, of at_origin]
    show "mod_2pi (vector_angle at_origin (polar_vector theta r)) = mod_2pi theta
        \<and> - pi < vector_angle at_origin (polar_vector theta r)
        \<and> vector_angle at_origin (polar_vector theta r) \<le> pi"
      by (simp only: ang)
  qed
  from a b show ?thesis by blast
qed

theorem polar_roundtrip_witness:
  "(0::real) < 2
   \<and> vector_mag (polar_vector pi 2) = 2
   \<and> mod_2pi (vector_angle 0 (polar_vector pi 2)) = mod_2pi pi
   \<and> - pi < vector_angle 0 (polar_vector pi 2)
   \<and> vector_angle 0 (polar_vector pi 2) \<le> pi"
proof -
  have p: "(0::real) < 2" and q: "(0::real) \<le> 2" by simp_all
  from polar_roundtrip [of 2 pi 0] p q
  have a: "vector_mag (polar_vector pi 2) = 2"
    and b: "mod_2pi (vector_angle 0 (polar_vector pi 2)) = mod_2pi pi"
    and c: "- pi < vector_angle 0 (polar_vector pi 2)"
    and d: "vector_angle 0 (polar_vector pi 2) \<le> pi"
    by blast+
  from p a b c d show ?thesis by blast
qed

text \<open>
  Claim C8, as stated, says that the guard of \<open>spring_force\<close> is never true and that
  the force on a slack webbing is not zero. The guard compares \<open>magnitude(extension)\<close>
  with 0, and \<open>extension\<close> is a quantity with a unit, negative on a slack webbing. With
  \<open>magnitude\<close> returning the number of the quantity, the guard is true on the slack
  webbing of length 50 (rest length 100, \<open>k = 40\<close>) and the force is the zero vector,
  as the case study says of a compressed webbing. And with the spring constant \<open>k = 0\<close>
  of its second phase the force on that webbing is the zero vector even if
  \<open>magnitude\<close> is the absolute value.
\<close>

theorem spring_force_slack_counterexample:
  "vector_mag (Vector2 0 (- 50)) \<noteq> 0
   \<and> vector_mag (Vector2 0 (- 50)) < length_web spider
   \<and> k spider = 40
   \<and> id (vector_mag (Vector2 0 (- 50)) - length_web spider) < 0
   \<and> spring_force id (Vector2 0 (- 50)) spider = Inr (Vector2 0 0)
   \<and> vector_mag (Vector2 0 0) = 0
   \<and> spring_force abs (Vector2 0 (- 50)) spider_released = Inr (Vector2 0 0)"
  by (simp add: spring_force_def vector_hat_def Let_def spider_released_def spider_def)

text \<open>
  Claim C8, amended. The guard of \<open>spring_force\<close> decides the force, whatever function
  \<open>magnitude\<close> is: for every vector \<open>L\<close> of nonzero magnitude and every system, the
  force is the zero vector where \<open>magnitude(extension) < 0\<close> holds, and
  \<open>k * (magnitude(L) - length)\<close> times the unit vector \<open>-vector_hat(L)\<close> where it does
  not. With \<open>magnitude\<close> returning the number of the quantity, the guard holds exactly on
  a slack webbing (\<open>magnitude(L) < length\<close>): the force is zero there, and follows the
  formula on a webbing at or beyond its rest length.
\<close>

theorem spring_force_guard:
  assumes "vector_mag L \<noteq> 0"
  shows "\<exists>h. vector_hat L = Inr h \<and> vector_mag h = 1
           \<and> (magnitude (vector_mag L - length_web system) < 0 \<longrightarrow>
                spring_force magnitude L system = Inr (vector_scale 0 (vector_neg h)))
           \<and> (\<not> magnitude (vector_mag L - length_web system) < 0 \<longrightarrow>
                spring_force magnitude L system
                  = Inr (vector_scale (k system * (vector_mag L - length_web system))
                           (vector_neg h)))
           \<and> (vector_mag L < length_web system \<longrightarrow>
                spring_force id L system = Inr (vector_scale 0 (vector_neg h))
                \<and> vector_mag (vector_scale 0 (vector_neg h)) = 0)
           \<and> (length_web system \<le> vector_mag L \<longrightarrow>
                spring_force id L system
                  = Inr (vector_scale (k system * (vector_mag L - length_web system))
                           (vector_neg h)))"
proof -
  let ?h = "vector_scale (1 / vector_mag L) L"
  let ?ext = "vector_mag L - length_web system"
  have hat: "vector_hat L = Inr ?h"
    using assms by (rule vector_hat_nonzero)
  have unit: "vector_mag ?h = 1"
    using assms hat by (rule vector_hat_unit)
  have fires: "spring_force m L system = Inr (vector_scale 0 (vector_neg ?h))"
    if "m ?ext < 0" for m
    using that by (simp add: spring_force_def Let_def hat)
  have passes: "spring_force m L system = Inr (vector_scale (k system * ?ext) (vector_neg ?h))"
    if "\<not> m ?ext < 0" for m
    using that by (simp add: spring_force_def Let_def hat)
  have zero: "vector_mag (vector_scale 0 (vector_neg ?h)) = 0"
    by (simp add: vector_mag_scale)
  have slack: "vector_mag L < length_web system \<longrightarrow>
      spring_force id L system = Inr (vector_scale 0 (vector_neg ?h))
      \<and> vector_mag (vector_scale 0 (vector_neg ?h)) = 0"
    using fires [of id] zero by simp
  have taut: "length_web system \<le> vector_mag L \<longrightarrow>
      spring_force id L system = Inr (vector_scale (k system * ?ext) (vector_neg ?h))"
    using passes [of id] by simp
  from hat unit fires [of magnitude] passes [of magnitude] slack taut
  show ?thesis by blast
qed

theorem spring_force_guard_witness:
  "vector_mag (Vector2 0 (- 50)) \<noteq> 0
   \<and> vector_mag (Vector2 0 (- 50)) < length_web spider
   \<and> spring_force id (Vector2 0 (- 50)) spider = Inr (Vector2 0 0)
   \<and> vector_mag (Vector2 0 (- 150)) \<noteq> 0
   \<and> length_web spider \<le> vector_mag (Vector2 0 (- 150))
   \<and> spring_force id (Vector2 0 (- 150)) spider = Inr (Vector2 0 2000)
   \<and> \<not> \<bar>vector_mag (Vector2 0 (- 50)) - length_web spider\<bar> < 0
   \<and> spring_force abs (Vector2 0 (- 50)) spider = Inr (Vector2 0 (- 2000))"
proof -
  have m: "vector_mag (Vector2 0 (- 50)) = 50" by simp
  have m': "vector_mag (Vector2 0 (- 150)) = 150" by simp
  have nz: "vector_mag (Vector2 0 (- 50)) \<noteq> 0" unfolding m by simp
  have nz': "vector_mag (Vector2 0 (- 150)) \<noteq> 0" unfolding m' by simp
  have sl: "vector_mag (Vector2 0 (- 50)) < length_web spider"
    unfolding m by (simp add: spider_def)
  have ta: "length_web spider \<le> vector_mag (Vector2 0 (- 150))"
    unfolding m' by (simp add: spider_def)
  have ng: "\<not> \<bar>vector_mag (Vector2 0 (- 50)) - length_web spider\<bar> < 0" by simp
  from spring_force_guard [OF nz, of abs spider] ng sl
  obtain h where h: "vector_hat (Vector2 0 (- 50)) = Inr h"
    and a: "spring_force abs (Vector2 0 (- 50)) spider
              = Inr (vector_scale (k spider * (vector_mag (Vector2 0 (- 50)) - length_web spider))
                       (vector_neg h))"
    and s: "spring_force id (Vector2 0 (- 50)) spider = Inr (vector_scale 0 (vector_neg h))"
    by blast
  have hv: "h = Vector2 0 (- 1)"
    using h unfolding vector_hat_nonzero [OF nz] m by simp
  from s hv have s0: "spring_force id (Vector2 0 (- 50)) spider = Inr (Vector2 0 0)"
    by simp
  from a hv have a0: "spring_force abs (Vector2 0 (- 50)) spider = Inr (Vector2 0 (- 2000))"
    unfolding m by (simp add: spider_def)
  from spring_force_guard [OF nz', of id spider] ta
  obtain h' where h': "vector_hat (Vector2 0 (- 150)) = Inr h'"
    and t: "spring_force id (Vector2 0 (- 150)) spider
              = Inr (vector_scale (k spider * (vector_mag (Vector2 0 (- 150)) - length_web spider))
                       (vector_neg h'))"
    by blast
  have hv': "h' = Vector2 0 (- 1)"
    using h' unfolding vector_hat_nonzero [OF nz'] m' by simp
  from t hv' have t0: "spring_force id (Vector2 0 (- 150)) spider = Inr (Vector2 0 2000)"
    unfolding m' by (simp add: spider_def)
  from nz sl s0 nz' ta t0 ng a0 show ?thesis by blast
qed

text \<open>
  Claim C9. For every velocity \<open>V\<close> of nonzero magnitude and every system,
  \<open>drag_force\<close> returns \<open>-(rho * C_d * area / 2) * magnitude(V)^2 * vector_hat(V)\<close>:
  the factor \<open>mag = rho * magnitude(V)^2 * C_d * area / 2\<close> times the unit vector
  opposite to \<open>V\<close>. The Euclidean norm of the force is the absolute value of \<open>mag\<close>,
  which is \<open>mag\<close> itself when \<open>rho * C_d * area\<close> is not negative.
\<close>

theorem drag_force_formula:
  assumes "vector_mag V \<noteq> 0"
  shows "\<exists>h f. vector_hat V = Inr h \<and> vector_mag h = 1
           \<and> h = vector_scale (1 / vector_mag V) V
           \<and> drag_force V system = Inr f
           \<and> f = vector_scale (- (rho system * C_d system * area system / 2) * vector_mag V ^ 2) h
           \<and> f = vector_scale (rho system * vector_mag V ^ 2 * C_d system * area system / 2) (vector_neg h)
           \<and> vector_mag f = \<bar>rho system * vector_mag V ^ 2 * C_d system * area system / 2\<bar>
           \<and> (0 \<le> rho system * C_d system * area system \<longrightarrow>
                vector_mag f = rho system * vector_mag V ^ 2 * C_d system * area system / 2)"
proof -
  let ?h = "vector_scale (1 / vector_mag V) V"
  let ?mag = "rho system * vector_mag V ^ 2 * C_d system * area system / 2"
  let ?f = "vector_scale ?mag (vector_neg ?h)"
  have hat: "vector_hat V = Inr ?h"
    using assms by (rule vector_hat_nonzero)
  have unit: "vector_mag ?h = 1"
    using assms hat by (rule vector_hat_unit)
  have drag: "drag_force V system = Inr ?f"
    by (simp add: drag_force_def Let_def hat)
  have alt: "?f = vector_scale (- (rho system * C_d system * area system / 2) * vector_mag V ^ 2) ?h"
    by (simp add: vector_scale_neg mult_ac)
  have norm: "vector_mag ?f = \<bar>?mag\<bar>"
    using unit by (simp only: vector_mag_scale vector_mag_neg mult_1_right)
  have pos: "0 \<le> rho system * C_d system * area system \<longrightarrow> vector_mag ?f = ?mag"
  proof
    assume "0 \<le> rho system * C_d system * area system"
    moreover have "0 \<le> vector_mag V ^ 2 / 2" by simp
    ultimately have "0 \<le> (rho system * C_d system * area system) * (vector_mag V ^ 2 / 2)"
      by (rule mult_nonneg_nonneg)
    then have "0 \<le> ?mag" by (simp add: mult_ac)
    with norm show "vector_mag ?f = ?mag" by simp
  qed
  from hat unit drag alt norm pos show ?thesis by blast
qed

theorem drag_force_formula_witness:
  "vector_mag (Vector2 3 4) \<noteq> 0
   \<and> drag_force (Vector2 3 4) baseball
       = Inr (Vector2 (- (3 / 5) * (rho baseball * 25 * C_d baseball * area baseball / 2))
                      (- (4 / 5) * (rho baseball * 25 * C_d baseball * area baseball / 2)))
   \<and> 0 \<le> rho baseball * C_d baseball * area baseball"
proof -
  have nz: "vector_mag (Vector2 3 4) \<noteq> 0" unfolding vector_mag_3_4 by simp
  have pos: "0 \<le> rho baseball * C_d baseball * area baseball"
    by (simp add: baseball_def)
  from drag_force_formula [OF nz, of baseball]
  obtain h f where h: "h = vector_scale (1 / vector_mag (Vector2 3 4)) (Vector2 3 4)"
    and d: "drag_force (Vector2 3 4) baseball = Inr f"
    and f: "f = vector_scale (rho baseball * vector_mag (Vector2 3 4) ^ 2 * C_d baseball * area baseball / 2) (vector_neg h)"
    by blast
  from d f h have "drag_force (Vector2 3 4) baseball
       = Inr (vector_scale (rho baseball * vector_mag (Vector2 3 4) ^ 2 * C_d baseball * area baseball / 2)
               (vector_neg (vector_scale (1 / vector_mag (Vector2 3 4)) (Vector2 3 4))))"
    by simp
  then have "drag_force (Vector2 3 4) baseball
       = Inr (Vector2 (- (3 / 5) * (rho baseball * 25 * C_d baseball * area baseball / 2))
                      (- (4 / 5) * (rho baseball * 25 * C_d baseball * area baseball / 2)))"
    by (simp only: vector_mag_3_4) (simp add: mult_ac)
  with nz pos show ?thesis by blast
qed

text \<open>
  Claim C10. The slope and event functions of the penny and of the baseball do not
  depend on their time argument: at any two times they return the same result for the
  same state and system.
\<close>

theorem slope_event_time_independent:
  "slope_func_penny t1 pstate system = slope_func_penny t2 pstate system
   \<and> event_func_penny t1 pstate system = event_func_penny t2 pstate system
   \<and> slope_func t1 state system = slope_func t2 state system
   \<and> event_func t1 state system = event_func t2 state system"
  by (cases pstate; cases state) simp

end
